theory Spec2Isabelle
  imports Main "HOL-Library.Sublist"
begin

section \<open>Strings\<close>

text \<open>
  A JavaScript string is a sequence of UTF-16 code units. The model uses \<^typ>\<open>string\<close>, so a
  \<^typ>\<open>char\<close> stands for one code unit in the range 0..255 (ASCII and Latin-1); every literal
  of the source that matters below is ASCII.

  \<open>String.prototype.trim\<close> removes white space and line terminators from both ends. In the
  range 0..255 these are TAB, LF, VT, FF, CR, SPACE and NBSP.
\<close>

definition isWhiteSpace :: "char \<Rightarrow> bool" where
  "isWhiteSpace c = (of_char c \<in> set [9, 10, 11, 12, 13, 32, 160 :: nat])"

definition trim :: "string \<Rightarrow> string" where
  "trim s = rev (dropWhile isWhiteSpace (rev (dropWhile isWhiteSpace s)))"

text \<open>A string is truthy in a condition exactly when it is not empty.\<close>

definition truthy :: "string \<Rightarrow> bool" where
  "truthy s = (s \<noteq> [])"

text \<open>\<open>s.includes(sub)\<close>: \<open>sub\<close> occurs in \<open>s\<close> as a contiguous substring.\<close>

fun includesStr :: "string \<Rightarrow> string \<Rightarrow> bool" where
  "includesStr [] sub = (sub = [])"
| "includesStr (c # cs) sub = (prefix sub (c # cs) \<or> includesStr cs sub)"

definition endsWith :: "string \<Rightarrow> string \<Rightarrow> bool" where
  "endsWith s suf = suffix suf s"

text \<open>
  \<open>toLowerCase\<close> on code units below 256: the ASCII capitals and the Latin-1 capitals
  (0xC0..0xDE without the multiplication sign 0xD7) move up by 32.
\<close>

definition toLowerChar :: "char \<Rightarrow> char" where
  "toLowerChar c =
     (let n = (of_char c :: nat) in
      if (65 \<le> n \<and> n \<le> 90) \<or> (192 \<le> n \<and> n \<le> 222 \<and> n \<noteq> 215)
      then char_of (n + 32) else c)"

definition toLowerCase :: "string \<Rightarrow> string" where
  "toLowerCase s = map toLowerChar s"

section \<open>Image reference parser (src/utils/imageUrlParser.ts)\<close>

record ParsedImage =
  url :: string
  alt :: string

record ParsedContent =
  textParts :: "string list"
  imageUrls :: "ParsedImage list"

text \<open>
  The regular expression is \<^verbatim>\<open>/!\[([^\]]*)\]\(([^)]+)\)/g\<close>. \<open>matchImageAt s\<close> is an attempt
  to match it at the first character of \<open>s\<close>; it gives the two capture groups and the text
  after the match. Both character classes are greedy, and the character that has to follow
  each of them is the one the class excludes, so a shorter repetition never matches where
  the longest one fails: the longest run (\<open>takeWhile\<close>) is the only candidate, and the
  first character that \<open>dropWhile\<close> leaves is the excluded one.
\<close>

fun matchImageAt :: "string \<Rightarrow> (string \<times> string \<times> string) option" where
  "matchImageAt (a # b # r) =
     (if a = CHR ''!'' \<and> b = CHR ''['' then
        (case dropWhile (\<lambda>c. c \<noteq> CHR '']'') r of
           x # y # r2 \<Rightarrow>
             if y = CHR ''('' then
               (case dropWhile (\<lambda>c. c \<noteq> CHR '')'') r2 of
                  z # rest \<Rightarrow>
                    if takeWhile (\<lambda>c. c \<noteq> CHR '')'') r2 \<noteq> []
                    then Some (takeWhile (\<lambda>c. c \<noteq> CHR '']'') r,
                               takeWhile (\<lambda>c. c \<noteq> CHR '')'') r2, rest)
                    else None
                | [] \<Rightarrow> None)
             else None
         | _ \<Rightarrow> None)
      else None)"
| "matchImageAt _ = None"

text \<open>
  \<open>imageRegex.exec(text)\<close> from \<open>lastIndex\<close>: the leftmost position at or after
  \<open>lastIndex\<close> where the expression matches. \<open>regexExec s\<close> runs on the text from
  \<open>lastIndex\<close> on and gives the text before the match (\<open>text.slice(lastIndex, match.index)\<close>),
  the captures \<open>match[1]\<close> and \<open>match[2]\<close>, and the text from the new \<open>lastIndex\<close> on.
\<close>

fun regexExec :: "string \<Rightarrow> (string \<times> string \<times> string \<times> string) option" where
  "regexExec [] = None"
| "regexExec (c # cs) =
     (case matchImageAt (c # cs) of
        Some (a, u, rest) \<Rightarrow> Some ([], a, u, rest)
      | None \<Rightarrow>
          (case regexExec cs of
             None \<Rightarrow> None
           | Some (textBefore, a, u, rest) \<Rightarrow> Some (c # textBefore, a, u, rest)))"

lemma matchImageAt_shorter:
  "matchImageAt s = Some (a, u, rest) \<Longrightarrow> length rest < length s"
proof (cases s rule: matchImageAt.cases)
  case (1 x y r)
  assume m: "matchImageAt s = Some (a, u, rest)"
  obtain p q r2 where d1: "dropWhile (\<lambda>c. c \<noteq> CHR '']'') r = p # q # r2"
    using m 1 by (auto split: if_splits list.splits)
  obtain z where d2: "dropWhile (\<lambda>c. c \<noteq> CHR '')'') r2 = z # rest"
    using m 1 d1 by (auto split: if_splits list.splits)
  have "length (z # rest) \<le> length r2"
    using length_dropWhile_le [of "\<lambda>c. c \<noteq> CHR '')''" r2] d2 by simp
  moreover have "length (p # q # r2) \<le> length r"
    using length_dropWhile_le [of "\<lambda>c. c \<noteq> CHR '']''" r] d1 by simp
  ultimately show ?thesis using 1 by simp
qed simp_all

lemma regexExec_shorter:
  "regexExec s = Some (b, a, u, rest) \<Longrightarrow> length rest < length s"
proof (induction s arbitrary: b)
  case Nil
  then show ?case by simp
next
  case (Cons c cs)
  show ?case
  proof (cases "matchImageAt (c # cs)")
    case None
    with Cons.prems obtain b' where "regexExec cs = Some (b', a, u, rest)"
      by (auto split: option.splits)
    from Cons.IH [OF this] show ?thesis by simp
  next
    case (Some m)
    with Cons.prems have "matchImageAt (c # cs) = Some (a, u, rest)"
      by (auto split: prod.splits)
    from matchImageAt_shorter [OF this] show ?thesis .
  qed
qed

text \<open>
  The \<open>while\<close> loop of \<open>parseMarkdownImages\<close>. Its state is the text from \<open>lastIndex\<close> on and
  the two arrays; it returns them when \<open>exec\<close> gives \<open>null\<close>.
\<close>

function parseLoop ::
  "string \<Rightarrow> string list \<Rightarrow> ParsedImage list \<Rightarrow> string list \<times> ParsedImage list \<times> string" where
  "parseLoop s tps imgs =
     (case regexExec s of
        None \<Rightarrow> (tps, imgs, s)
      | Some (textBefore, a, u, rest) \<Rightarrow>
          parseLoop rest
            (if textBefore \<noteq> [] \<and> truthy (trim textBefore) then tps @ [textBefore] else tps)
            (imgs @ [\<lparr>url = u, alt = a\<rparr>]))"
  by pat_completeness auto
termination
  by (relation "measure (\<lambda>(s, tps, imgs). length s)") (auto dest: regexExec_shorter)

declare parseLoop.simps [simp del]

definition parseMarkdownImages :: "string \<Rightarrow> ParsedContent" where
  "parseMarkdownImages text =
     (case parseLoop text [] [] of
        (tps, imgs, remainingText) \<Rightarrow>
          (let tps1 = (if remainingText \<noteq> [] \<and> truthy (trim remainingText)
                       then tps @ [remainingText] else tps);
               tps2 = (if imgs = [] \<and> truthy (trim text) then tps1 @ [text] else tps1)
           in \<lparr>textParts = tps2, imageUrls = imgs\<rparr>))"

section \<open>Image reference validator\<close>

text \<open>
  \<open>new URL(url)\<close> is the platform's URL parser, not code of this repository: it is a
  parameter \<open>parseURL\<close> of the model, \<open>None\<close> where the constructor throws. Of the parsed
  object the code reads \<open>hostname\<close> only; \<open>pathname\<close> and \<open>search\<close> are there for the
  comparison with the specified policy.
\<close>

record URL =
  hostname :: string
  pathname :: string
  search :: string

definition validImageExtensions :: "string list" where
  "validImageExtensions = [''jpg'', ''jpeg'', ''png'', ''gif'', ''webp'', ''svg'']"

definition knownImageDomains :: "string list" where
  "knownImageDomains =
     [''googlecdn.datas.systems'', ''cdn.google.com'', ''storage.googleapis.com'',
      ''lh3.googleusercontent.com'']"

text \<open>The dot of a regular expression matches every code unit but a line terminator.\<close>

definition isLineTerminator :: "char \<Rightarrow> bool" where
  "isLineTerminator c = (of_char c \<in> set [10, 13 :: nat])"

text \<open>
  The end \<^verbatim>\<open>(\?.*)?$\<close> of the extension pattern: the input ends here, or a question mark
  follows and no line terminator stands between it and the end of the input.
\<close>

definition extensionTail :: "string \<Rightarrow> bool" where
  "extensionTail t =
     (case t of [] \<Rightarrow> True | c # q \<Rightarrow> c = CHR ''?'' \<and> \<not> list_ex isLineTerminator q)"

text \<open>
  \<^verbatim>\<open>/\.(jpg|jpeg|png|gif|webp|svg)(\?.*)?$/i.test(url)\<close>: some position of the input holds a
  dot, one of the extensions in either case (the flag \<open>i\<close> folds ASCII letters only, as
  the patterns are ASCII) and the end pattern.
\<close>

fun validImageExtensionsTest :: "string \<Rightarrow> bool" where
  "validImageExtensionsTest [] = False"
| "validImageExtensionsTest (c # cs) =
     ((c = CHR ''.'' \<and>
       list_ex (\<lambda>e. toLowerCase (take (length e) cs) = e \<and> extensionTail (drop (length e) cs))
         validImageExtensions)
      \<or> validImageExtensionsTest cs)"

definition isValidImageUrl :: "(string \<Rightarrow> URL option) \<Rightarrow> string \<Rightarrow> bool" where
  "isValidImageUrl parseURL u =
     (case parseURL u of
        None \<Rightarrow> False
      | Some urlObj \<Rightarrow>
          if validImageExtensionsTest u then True
          else if includesStr (toLowerCase u) ''image'' then True
          else list_ex (\<lambda>domain. includesStr (hostname urlObj) domain) knownImageDomains)"

definition containsCdnImages :: "(string \<Rightarrow> URL option) \<Rightarrow> string \<Rightarrow> bool" where
  "containsCdnImages parseURL text =
     list_ex (\<lambda>img. isValidImageUrl parseURL (url img)) (imageUrls (parseMarkdownImages text))"

text \<open>
  The policy as the specification words it, for the comparison: the extension is looked
  for at the end of the path, the keyword in the path and in the query, the host in the
  allowlist.
\<close>

definition spec_isFetchable :: "(string \<Rightarrow> URL option) \<Rightarrow> string \<Rightarrow> bool" where
  "spec_isFetchable parseURL u =
     (case parseURL u of
        None \<Rightarrow> False
      | Some urlObj \<Rightarrow>
          if list_ex (\<lambda>e. suffix (CHR ''.'' # e) (toLowerCase (pathname urlObj)))
               validImageExtensions then True
          else if includesStr (toLowerCase (pathname urlObj)) ''image''
                \<or> includesStr (toLowerCase (search urlObj)) ''image'' then True
          else list_ex (\<lambda>domain. includesStr (hostname urlObj) domain) knownImageDomains)"

section \<open>Bounded image fetcher\<close>

text \<open>
  The network is the environment. What one call of \<open>fetch\<close> does is an input of the model:
  the promise rejects (with the abort flag of the controller set when the timer fired
  first), or it resolves to a response. \<open>response.ok\<close> holds for the statuses 200..299.
  Reading the body (\<open>response.blob()\<close>, then \<open>blobToBase64\<close>) gives the Base64 text,
  rejects, or never settles: \<open>clearTimeout\<close> runs as soon as the response is there, so no
  timer bounds the read of the body. The fetch itself always settles, as the timer aborts
  it.
\<close>

datatype BodyOutcome = BodyRead string | BodyFailed string | BodyPending

record Response =
  status :: nat
  statusText :: string
  contentType :: "string option"
  body :: BodyOutcome

definition ok :: "Response \<Rightarrow> bool" where
  "ok r = (200 \<le> status r \<and> status r \<le> 299)"

datatype FetchOutcome = FetchRejected bool string | FetchResponse Response

text \<open>
  The errors \<open>downloadImageAsBase64\<close> throws: the timeout error of its \<open>catch\<close> block, the
  error built from the status of a response that is not ok, and any other error, passed
  on as it is.
\<close>

datatype Exn = TimeoutExn | HttpExn nat string | OtherExn string

text \<open>
  What awaiting a call gives: a value, an exception, or nothing at all when the promise
  never settles.
\<close>

datatype 'a Completion = Returns 'a | Throws Exn | NeverSettles

record ImageData =
  mimeType :: string
  base64Data :: string

text \<open>\<open>controller.signal.aborted\<close> when the \<open>catch\<close> block runs.\<close>

fun signalAborted :: "FetchOutcome \<Rightarrow> bool" where
  "signalAborted (FetchRejected aborted e) = aborted"
| "signalAborted (FetchResponse r) = False"

text \<open>The \<open>try\<close> block.\<close>

fun downloadTry :: "FetchOutcome \<Rightarrow> ImageData Completion" where
  "downloadTry (FetchRejected aborted e) = Throws (OtherExn e)"
| "downloadTry (FetchResponse r) =
     (if \<not> ok r then Throws (HttpExn (status r) (statusText r))
      else
        (case body r of
           BodyFailed e \<Rightarrow> Throws (OtherExn e)
         | BodyPending \<Rightarrow> NeverSettles
         | BodyRead b \<Rightarrow>
             Returns \<lparr>mimeType = (case contentType r of
                                     None \<Rightarrow> ''image/png''
                                   | Some ct \<Rightarrow> if truthy ct then ct else ''image/png''),
                      base64Data = b\<rparr>))"

definition downloadImageAsBase64 :: "FetchOutcome \<Rightarrow> ImageData Completion" where
  "downloadImageAsBase64 out =
     (case downloadTry out of
        Returns d \<Rightarrow> Returns d
      | Throws e \<Rightarrow> if signalAborted out then Throws TimeoutExn else Throws e
      | NeverSettles \<Rightarrow> NeverSettles)"

section \<open>Concurrent batch downloader\<close>

text \<open>
  The network as \<open>batchDownloadImages\<close> sees it is a function \<open>net\<close>: what the fetch of a
  URL does (the same for every fetch of this URL in a run). The parameter \<open>timeout\<close> has
  no counterpart: whether the timer fires before the response is part of the outcome.
  The counter \<open>concurrency\<close> and the indices are natural numbers.

  The first loop of \<open>batchDownloadImages\<close> calls \<open>processBatch(i)\<close> for
  \<open>i = 0, concurrency, 2 * concurrency, ...\<close> while \<open>i < urls.length\<close>. With
  \<open>concurrency = 0\<close> it never ends, so the loop is a partial function: \<open>None\<close> is "does not
  return".
\<close>

partial_function (option) launchBatches :: "nat \<Rightarrow> nat \<Rightarrow> nat \<Rightarrow> nat list \<Rightarrow> nat list option" where
  "launchBatches n concurrency i batches =
     (if i < n then launchBatches n concurrency (i + concurrency) (batches @ [i])
      else Some batches)"

declare launchBatches.simps [code]

text \<open>
  One turn of the loop in \<open>processBatch\<close>: \<open>Some entry\<close> when the turn ends and has written
  \<open>entry\<close> to \<open>results[i]\<close>, \<open>None\<close> when the awaited download never settles, so that the
  turn (and its batch) never ends. The turn does not throw: its \<open>catch\<close> block takes every
  error of the download.
\<close>

definition processUrl ::
  "(string \<Rightarrow> URL option) \<Rightarrow> (string \<Rightarrow> FetchOutcome) \<Rightarrow> string \<Rightarrow>
   (string \<times> ImageData) option option" where
  "processUrl parseURL net u =
     (if isValidImageUrl parseURL u then
        (case downloadImageAsBase64 (net u) of
           Returns imageData \<Rightarrow> Some (Some (u, imageData))
         | Throws e \<Rightarrow> Some None
         | NeverSettles \<Rightarrow> None)
      else Some None)"

fun processBatchLoop ::
  "(string \<Rightarrow> URL option) \<Rightarrow> (string \<Rightarrow> FetchOutcome) \<Rightarrow> string list \<Rightarrow> nat list \<Rightarrow>
   (string \<times> ImageData) option list \<Rightarrow> (string \<times> ImageData) option list option" where
  "processBatchLoop parseURL net urls [] results = Some results"
| "processBatchLoop parseURL net urls (i # indices) results =
     (case processUrl parseURL net (urls ! i) of
        None \<Rightarrow> None
      | Some entry \<Rightarrow> processBatchLoop parseURL net urls indices (results[i := entry]))"

definition processBatch ::
  "(string \<Rightarrow> URL option) \<Rightarrow> (string \<Rightarrow> FetchOutcome) \<Rightarrow> string list \<Rightarrow> nat \<Rightarrow> nat \<Rightarrow>
   (string \<times> ImageData) option list \<Rightarrow> (string \<times> ImageData) option list option" where
  "processBatch parseURL net urls concurrency startIndex results =
     processBatchLoop parseURL net urls
       [startIndex ..< min (length urls) (startIndex + concurrency)] results"

text \<open>
  All batches run as asynchronous tasks and \<open>Promise.all\<close> waits for all of them: when a
  batch never ends, the call never returns. Each task writes the entries of its own
  indices only and what it writes to an entry is fixed by the URL and the network, so the
  array at the end is the same for every interleaving; the model runs the batches one
  after the other.
\<close>

fun awaitBatches ::
  "(string \<Rightarrow> URL option) \<Rightarrow> (string \<Rightarrow> FetchOutcome) \<Rightarrow> string list \<Rightarrow> nat \<Rightarrow> nat list \<Rightarrow>
   (string \<times> ImageData) option list \<Rightarrow> (string \<times> ImageData) option list option" where
  "awaitBatches parseURL net urls concurrency [] results = Some results"
| "awaitBatches parseURL net urls concurrency (startIndex # batches) results =
     (case processBatch parseURL net urls concurrency startIndex results of
        None \<Rightarrow> None
      | Some results' \<Rightarrow> awaitBatches parseURL net urls concurrency batches results')"

definition batchDownloadImages ::
  "(string \<Rightarrow> URL option) \<Rightarrow> (string \<Rightarrow> FetchOutcome) \<Rightarrow> string list \<Rightarrow> nat \<Rightarrow>
   (string \<times> ImageData) option list option" where
  "batchDownloadImages parseURL net urls concurrency =
     (case launchBatches (length urls) concurrency 0 [] of
        None \<Rightarrow> None
      | Some batches \<Rightarrow>
          awaitBatches parseURL net urls concurrency batches (replicate (length urls) None))"

text \<open>
  The entry that the turn for a URL writes when its download settles: the image with its
  URL when the URL is valid and the download returns, \<open>null\<close> otherwise.
\<close>

definition settledEntry ::
  "(string \<Rightarrow> URL option) \<Rightarrow> (string \<Rightarrow> FetchOutcome) \<Rightarrow> string \<Rightarrow> (string \<times> ImageData) option" where
  "settledEntry parseURL net u =
     (if isValidImageUrl parseURL u then
        (case downloadImageAsBase64 (net u) of
           Returns imageData \<Rightarrow> Some (u, imageData)
         | _ \<Rightarrow> None)
      else None)"

text \<open>A download stalls: the URL is valid and the awaited download never settles.\<close>

definition stalls :: "(string \<Rightarrow> URL option) \<Rightarrow> (string \<Rightarrow> FetchOutcome) \<Rightarrow> string \<Rightarrow> bool" where
  "stalls parseURL net u =
     (isValidImageUrl parseURL u \<and> downloadImageAsBase64 (net u) = NeverSettles)"

text \<open>
  An asynchronous function runs without interruption up to its first \<open>await\<close>. So the call
  \<open>processBatch(startIndex)\<close> in the launching loop has, when it returns its promise,
  skipped the invalid URLs at the start of its range and issued the fetch for the first
  valid one. \<open>fetchesInFlightAfterLaunch\<close> lists the fetches issued (none of them
  completed) when the launching loop is over and \<open>Promise.all\<close> is awaited.
\<close>

definition firstFetch :: "(string \<Rightarrow> URL option) \<Rightarrow> string list \<Rightarrow> nat \<Rightarrow> nat \<Rightarrow> nat option" where
  "firstFetch parseURL urls concurrency startIndex =
     find (\<lambda>i. isValidImageUrl parseURL (urls ! i))
       [startIndex ..< min (length urls) (startIndex + concurrency)]"

definition fetchesInFlightAfterLaunch ::
  "(string \<Rightarrow> URL option) \<Rightarrow> string list \<Rightarrow> nat \<Rightarrow> nat list option" where
  "fetchesInFlightAfterLaunch parseURL urls concurrency =
     (case launchBatches (length urls) concurrency 0 [] of
        None \<Rightarrow> None
      | Some batches \<Rightarrow> Some (List.map_filter (firstFetch parseURL urls concurrency) batches))"

section \<open>Content parts\<close>

text \<open>
  \<open>Part\<close> is the application's part (all fields optional, \<open>inlineData\<close> a pair of MIME type
  and data). \<open>SDKPart\<close> is a part of a provider chunk as the code reads it: \<open>text\<close>,
  \<open>inlineData\<close> with optional fields, and the two properties read through \<open>as any\<close>.
\<close>

record Part =
  "text" :: "string option"
  inlineData :: "(string \<times> string) option"
  thought :: "bool option"
  thoughtSignature :: "string option"

record SDKPart =
  sdkText :: "string option"
  sdkInlineData :: "(string option \<times> string option) option"
  sdkThought :: "bool option"
  sdkThoughtSignature :: "string option"

text \<open>\<open>!!x\<close> for an optional boolean, and \<open>x || d\<close> for an optional string.\<close>

definition toBool :: "bool option \<Rightarrow> bool" where
  "toBool b = (b = Some True)"

definition orDefault :: "string option \<Rightarrow> string \<Rightarrow> string" where
  "orDefault x d = (case x of None \<Rightarrow> d | Some v \<Rightarrow> if truthy v then v else d)"

text \<open>
  The spread \<^verbatim>\<open>...(signature && { thoughtSignature: signature })\<close> and the statement
  \<^verbatim>\<open>if (signature) newPart.thoughtSignature = signature\<close>: the field is set for a truthy
  signature only.
\<close>

definition signatureField :: "string option \<Rightarrow> string option" where
  "signatureField signature =
     (case signature of None \<Rightarrow> None | Some sg \<Rightarrow> if truthy sg then Some sg else None)"

definition textPart :: "string \<Rightarrow> bool \<Rightarrow> string option \<Rightarrow> Part" where
  "textPart t isThought signature =
     \<lparr>text = Some t, inlineData = None, thought = Some isThought,
      thoughtSignature = signatureField signature\<rparr>"

definition imagePart :: "string \<Rightarrow> string \<Rightarrow> bool \<Rightarrow> string option \<Rightarrow> Part" where
  "imagePart m d isThought signature =
     \<lparr>text = None, inlineData = Some (m, d), thought = Some isThought,
      thoughtSignature = signatureField signature\<rparr>"

text \<open>
  The text branch that the server loop and the client loop share: append to the last part
  when it has a text and the same thought flag, push a new text part otherwise.
\<close>

definition appendText :: "Part list \<Rightarrow> string \<Rightarrow> bool \<Rightarrow> string option \<Rightarrow> Part list" where
  "appendText parts t isThought signature =
     (case (if parts = [] then None else text (last parts)) of
        Some lastText \<Rightarrow>
          if toBool (thought (last parts)) = isThought
          then butlast parts @
                 [(last parts)\<lparr>text := Some (lastText @ t),
                    thoughtSignature :=
                      (case signatureField signature of
                         Some sg \<Rightarrow> Some sg
                       | None \<Rightarrow> thoughtSignature (last parts))\<rparr>]
          else parts @ [textPart t isThought signature]
      | None \<Rightarrow> parts @ [textPart t isThought signature])"

section \<open>Part merger of the server (streamGeminiResponse of the proxy)\<close>

definition mergePart :: "Part list \<Rightarrow> SDKPart \<Rightarrow> Part list" where
  "mergePart currentParts part =
     (let signature = sdkThoughtSignature part; isThought = toBool (sdkThought part) in
      case sdkText part of
        Some t \<Rightarrow> appendText currentParts t isThought signature
      | None \<Rightarrow>
          (case sdkInlineData part of
             Some (m, d) \<Rightarrow>
               currentParts @
                 [imagePart (orDefault m ''image/png'') (orDefault d []) isThought signature]
           | None \<Rightarrow> currentParts))"

text \<open>
  The merger as the specification words it, on the closed fragment type of the
  specification, written without the helper functions of the code above. \<open>toFragment\<close> is
  the mapping at the boundary: a part with a text is a text fragment, a part with
  \<open>inlineData\<close> and no text a binary fragment (MIME type \<open>image/png\<close> and empty data where
  the part gives none), any other part no fragment. A fragment is a thought when the
  flag of the part is \<open>true\<close>, and it carries a signature when the part has one that is
  not the empty string.
\<close>

datatype Fragment =
  TextFragment string bool "string option"
| BinaryFragment string string bool "string option"

definition carriedSignature :: "SDKPart \<Rightarrow> string option" where
  "carriedSignature part =
     (if sdkThoughtSignature part = Some [] then None else sdkThoughtSignature part)"

definition toFragment :: "SDKPart \<Rightarrow> Fragment option" where
  "toFragment part =
     (case sdkText part of
        Some t \<Rightarrow> Some (TextFragment t (sdkThought part = Some True) (carriedSignature part))
      | None \<Rightarrow>
          (case sdkInlineData part of
             Some (m, d) \<Rightarrow>
               Some (BinaryFragment
                       (case m of
                          None \<Rightarrow> ''image/png''
                        | Some v \<Rightarrow> if v = [] then ''image/png'' else v)
                       (case d of None \<Rightarrow> [] | Some v \<Rightarrow> v)
                       (sdkThought part = Some True) (carriedSignature part))
           | None \<Rightarrow> None))"

definition isTextPart :: "Part \<Rightarrow> bool" where
  "isTextPart p = (text p \<noteq> None)"

definition isThoughtPart :: "Part \<Rightarrow> bool" where
  "isThoughtPart p = (thought p = Some True)"

fun spec_merge :: "Part list \<Rightarrow> Fragment \<Rightarrow> Part list" where
  "spec_merge parts (TextFragment t isThought sg) =
     (if parts \<noteq> [] \<and> isTextPart (last parts) \<and> isThoughtPart (last parts) = isThought
      then butlast parts @
             [(last parts)\<lparr>text := map_option (\<lambda>old. old @ t) (text (last parts)),
                thoughtSignature := (if sg \<noteq> None then sg else thoughtSignature (last parts))\<rparr>]
      else parts @ [\<lparr>text = Some t, inlineData = None, thought = Some isThought,
                     thoughtSignature = sg\<rparr>])"
| "spec_merge parts (BinaryFragment m d isThought sg) =
     parts @ [\<lparr>text = None, inlineData = Some (m, d), thought = Some isThought,
               thoughtSignature = sg\<rparr>]"

section \<open>CDN image resolution (processTextWithCdnImages)\<close>

text \<open>
  The body of \<open>imageResults.forEach\<close>: a resolved image is pushed as a binary part; for a
  failed one the Markdown is rebuilt from the two captures and appended to the last part
  when that part has a non-empty text, pushed as a text part otherwise.
\<close>

definition originalMarkdown :: "ParsedImage \<Rightarrow> string" where
  "originalMarkdown img =
     ''!['' @ (if truthy (alt img) then alt img else ''image'') @ '']('' @ url img @ '')''"

definition addImageResult ::
  "bool \<Rightarrow> string option \<Rightarrow> Part list \<Rightarrow> (string \<times> ImageData) option \<times> ParsedImage \<Rightarrow> Part list" where
  "addImageResult isThought signature parts r =
     (case fst r of
        Some (u, imageData) \<Rightarrow>
          parts @ [imagePart (mimeType imageData) (base64Data imageData) isThought signature]
      | None \<Rightarrow>
          (case (if parts = [] then None else text (last parts)) of
             Some lastText \<Rightarrow>
               if truthy lastText
               then butlast parts @
                      [(last parts)\<lparr>text :=
                         Some (lastText @ (if endsWith lastText '' '' then [] else '' '')
                                 @ originalMarkdown (snd r))\<rparr>]
               else parts @ [textPart (originalMarkdown (snd r)) isThought signature]
           | None \<Rightarrow> parts @ [textPart (originalMarkdown (snd r)) isThought signature]))"

text \<open>
  Nothing in the \<open>try\<close> block of \<open>processTextWithCdnImages\<close> throws (the parser is pure, the
  batch downloader catches every error of a fetch), so its \<open>catch\<close> block has no branch
  here. The only way not to return is that of the batch downloader.
\<close>

definition processTextWithCdnImages ::
  "(string \<Rightarrow> URL option) \<Rightarrow> (string \<Rightarrow> FetchOutcome) \<Rightarrow> string \<Rightarrow> bool \<Rightarrow> string option \<Rightarrow>
   Part list option" where
  "processTextWithCdnImages parseURL net t isThought signature =
     (let parsed = parseMarkdownImages t;
          parts = map (\<lambda>textPart'. textPart textPart' isThought signature)
                    (filter (\<lambda>textPart'. truthy (trim textPart')) (textParts parsed))
      in if imageUrls parsed \<noteq> [] then
           (case batchDownloadImages parseURL net (map url (imageUrls parsed)) 3 of
              None \<Rightarrow> None
            | Some imageResults \<Rightarrow>
                Some (foldl (addImageResult isThought signature) parts
                        (zip imageResults (imageUrls parsed))))
         else Some parts)"

section \<open>Streaming assembler of the client (streamGeminiResponse of the service)\<close>

record StreamState =
  currentParts :: "Part list"
  pendingTextBuffer :: string
  lastThoughtState :: bool
  lastSignature :: "string option"

definition initialState :: StreamState where
  "initialState =
     \<lparr>currentParts = [], pendingTextBuffer = [], lastThoughtState = False, lastSignature = None\<rparr>"

text \<open>The backward search for the last part with a text, and \<open>splice(lastTextIndex, 1)\<close>.\<close>

definition lastTextIndex :: "Part list \<Rightarrow> nat option" where
  "lastTextIndex parts = find (\<lambda>i. text (parts ! i) \<noteq> None) (rev [0 ..< length parts])"

definition removeLastText :: "Part list \<Rightarrow> Part list" where
  "removeLastText parts =
     (case lastTextIndex parts of
        Some i \<Rightarrow> take i parts @ drop (Suc i) parts
      | None \<Rightarrow> parts)"

text \<open>
  The body of the loop over the parts of a chunk. \<open>processTextWithCdnImages\<close> does not
  throw, so the \<open>catch\<close> block around its call has no branch here.
\<close>

definition processPart ::
  "(string \<Rightarrow> URL option) \<Rightarrow> (string \<Rightarrow> FetchOutcome) \<Rightarrow> bool \<Rightarrow> StreamState \<Rightarrow> SDKPart \<Rightarrow>
   StreamState option" where
  "processPart parseURL net enableCdnImageProcessing s part =
     (let signature = sdkThoughtSignature part; isThought = toBool (sdkThought part) in
      case sdkText part of
        Some t \<Rightarrow>
          (let buffer = pendingTextBuffer s @ t in
           if enableCdnImageProcessing \<and> containsCdnImages parseURL buffer then
             (case processTextWithCdnImages parseURL net buffer isThought signature of
                None \<Rightarrow> None
              | Some processedParts \<Rightarrow>
                  Some \<lparr>currentParts = removeLastText (currentParts s) @ processedParts,
                        pendingTextBuffer = [],
                        lastThoughtState = isThought, lastSignature = signature\<rparr>)
           else
             Some \<lparr>currentParts = appendText (currentParts s) t isThought signature,
                   pendingTextBuffer = buffer,
                   lastThoughtState = isThought, lastSignature = signature\<rparr>)
      | None \<Rightarrow>
          (case sdkInlineData part of
             Some (m, d) \<Rightarrow>
               (let flushed =
                      (if truthy (trim (pendingTextBuffer s))
                       then s\<lparr>currentParts := currentParts s @
                                 [textPart (pendingTextBuffer s) (lastThoughtState s) (lastSignature s)],
                              pendingTextBuffer := []\<rparr>
                       else s)
                in Some (flushed\<lparr>currentParts := currentParts flushed @
                           [imagePart (orDefault m ''image/png'') (orDefault d []) isThought
                              signature]\<rparr>))
           | None \<Rightarrow> Some s))"

fun processParts ::
  "(string \<Rightarrow> URL option) \<Rightarrow> (string \<Rightarrow> FetchOutcome) \<Rightarrow> bool \<Rightarrow> StreamState \<Rightarrow> SDKPart list \<Rightarrow>
   StreamState option" where
  "processParts parseURL net enable s [] = Some s"
| "processParts parseURL net enable s (part # newParts) =
     (case processPart parseURL net enable s part of
        None \<Rightarrow> None
      | Some s' \<Rightarrow> processParts parseURL net enable s' newParts)"

text \<open>
  The loop over the chunks the stream delivers before it ends or the signal aborts. A
  chunk is the list of parts of its first candidate, \<open>None\<close> for a chunk without candidates
  (\<open>continue\<close>: nothing is yielded). The second component collects, in order, the content
  of \<open>modelParts\<close> at each \<open>yield\<close>.
\<close>

fun streamLoop ::
  "(string \<Rightarrow> URL option) \<Rightarrow> (string \<Rightarrow> FetchOutcome) \<Rightarrow> bool \<Rightarrow> StreamState \<Rightarrow>
   SDKPart list option list \<Rightarrow> Part list list \<Rightarrow> (StreamState \<times> Part list list) option" where
  "streamLoop parseURL net enable s [] yields = Some (s, yields)"
| "streamLoop parseURL net enable s (None # chunks) yields =
     streamLoop parseURL net enable s chunks yields"
| "streamLoop parseURL net enable s (Some newParts # chunks) yields =
     (case processParts parseURL net enable s newParts of
        None \<Rightarrow> None
      | Some s' \<Rightarrow> streamLoop parseURL net enable s' chunks (yields @ [currentParts s']))"

text \<open>The statement after the loop: "handle any remaining text buffer".\<close>

definition flushRemaining :: "StreamState \<Rightarrow> Part list" where
  "flushRemaining s =
     (if truthy (trim (pendingTextBuffer s))
      then currentParts s @
             [textPart (pendingTextBuffer s) (lastThoughtState s) (lastSignature s)]
      else currentParts s)"

text \<open>
  A run of the generator: the snapshots it yields and the content of the array
  \<open>currentParts\<close> (the one every snapshot refers to) when the generator is done.
\<close>

definition streamGeminiResponse ::
  "(string \<Rightarrow> URL option) \<Rightarrow> (string \<Rightarrow> FetchOutcome) \<Rightarrow> bool \<Rightarrow> SDKPart list option list \<Rightarrow>
   (Part list list \<times> Part list) option" where
  "streamGeminiResponse parseURL net enable chunks =
     (case streamLoop parseURL net enable initialState chunks [] of
        None \<Rightarrow> None
      | Some (s, yields) \<Rightarrow> Some (yields, flushRemaining s))"

text \<open>The text of a part list, in part order, and the text of the fragments of a stream.\<close>

definition textContent :: "Part list \<Rightarrow> string" where
  "textContent parts = concat (map (\<lambda>p. case text p of Some t \<Rightarrow> t | None \<Rightarrow> []) parts)"

definition fragmentText :: "SDKPart list option list \<Rightarrow> string" where
  "fragmentText chunks =
     concat (map (\<lambda>part. case sdkText part of Some t \<Rightarrow> t | None \<Rightarrow> [])
               (concat (map (\<lambda>chunk. case chunk of Some ps \<Rightarrow> ps | None \<Rightarrow> []) chunks)))"


section \<open>Example inputs\<close>

text \<open>
  What the platform's URL parser gives for the URLs of the examples below (a table for
  these URLs only), two kinds of fetch outcome, and fragments without thought flag and
  signature.
\<close>

definition exampleParseURL :: "string \<Rightarrow> URL option" where
  "exampleParseURL u =
     (if u = ''http://cdn.img/a.png''
      then Some \<lparr>hostname = ''cdn.img'', pathname = ''/a.png'', search = []\<rparr>
      else if u = ''http://cdn.img/b.png''
      then Some \<lparr>hostname = ''cdn.img'', pathname = ''/b.png'', search = []\<rparr>
      else if u = ''http://cdn.img/c.png''
      then Some \<lparr>hostname = ''cdn.img'', pathname = ''/c.png'', search = []\<rparr>
      else if u = ''http://image.example.com/x''
      then Some \<lparr>hostname = ''image.example.com'', pathname = ''/x'', search = []\<rparr>
      else None)"

definition pngResponse :: "string \<Rightarrow> FetchOutcome" where
  "pngResponse d =
     FetchResponse \<lparr>status = 200, statusText = ''OK'', contentType = Some ''image/png'',
                    body = BodyRead d\<rparr>"

definition netAllOk :: "string \<Rightarrow> FetchOutcome" where
  "netAllOk u = pngResponse ''D1''"

definition netAllFail :: "string \<Rightarrow> FetchOutcome" where
  "netAllFail u = FetchRejected False ''Failed to fetch''"

definition netBodyStalls :: "string \<Rightarrow> FetchOutcome" where
  "netBodyStalls u =
     FetchResponse \<lparr>status = 200, statusText = ''OK'', contentType = Some ''image/png'',
                    body = BodyPending\<rparr>"

definition netOnlyBFails :: "string \<Rightarrow> FetchOutcome" where
  "netOnlyBFails u =
     (if u = ''http://cdn.img/b.png'' then FetchRejected False ''Failed to fetch''
      else pngResponse ''D1'')"

definition textFragment :: "string \<Rightarrow> SDKPart" where
  "textFragment t =
     \<lparr>sdkText = Some t, sdkInlineData = None, sdkThought = None, sdkThoughtSignature = None\<rparr>"

definition imageFragment :: "string \<Rightarrow> string \<Rightarrow> SDKPart" where
  "imageFragment m d =
     \<lparr>sdkText = None, sdkInlineData = Some (Some m, Some d), sdkThought = None,
      sdkThoughtSignature = None\<rparr>"

section \<open>Properties of the parser\<close>

lemma matchImageAt_bang: "matchImageAt s = Some m \<Longrightarrow> CHR ''!'' \<in> set s"
  by (cases s rule: matchImageAt.cases) (auto split: if_splits)

lemma regexExec_bang: "regexExec s = Some m \<Longrightarrow> CHR ''!'' \<in> set s"
proof (induction s arbitrary: m)
  case Nil
  then show ?case by simp
next
  case (Cons c cs)
  show ?case
  proof (cases "matchImageAt (c # cs)")
    case None
    with Cons.prems obtain m' where "regexExec cs = Some m'"
      by (auto split: option.splits)
    from Cons.IH [OF this] show ?thesis by simp
  next
    case (Some x)
    from matchImageAt_bang [OF this] show ?thesis .
  qed
qed

lemma trim_blank: "\<forall>c\<in>set s. isWhiteSpace c \<Longrightarrow> trim s = []"
proof -
  assume "\<forall>c\<in>set s. isWhiteSpace c"
  then have d: "dropWhile isWhiteSpace s = []"
    by (simp add: dropWhile_eq_Nil_conv)
  show ?thesis
    unfolding trim_def by (simp only: d rev.simps dropWhile.simps)
qed

text \<open>
  C10. A text that is empty or consists of white space only parses to two empty arrays:
  the expression never matches, the remaining text trims to the empty string, and the
  final "whole text as one segment" rule is guarded by the same trim. The function is
  total (the loop's termination is proved above), so no string makes it throw.
\<close>

theorem parseMarkdownImages_blank:
  assumes "\<forall>c\<in>set inp. isWhiteSpace c"
  shows "parseMarkdownImages inp = \<lparr>textParts = [], imageUrls = []\<rparr>"
proof -
  have "\<not> isWhiteSpace CHR ''!''"
    by (simp add: isWhiteSpace_def)
  with assms have "CHR ''!'' \<notin> set inp"
    by blast
  then have "regexExec inp = None"
    using regexExec_bang [of inp] by (cases "regexExec inp") auto
  then have "parseLoop inp [] [] = ([], [], inp)"
    by (simp add: parseLoop.simps)
  then show ?thesis
    using trim_blank [OF assms] by (simp add: parseMarkdownImages_def truthy_def)
qed

theorem parseMarkdownImages_blank_witness:
  "parseMarkdownImages '' '' = \<lparr>textParts = [], imageUrls = []\<rparr>
   \<and> parseMarkdownImages '''' = \<lparr>textParts = [], imageUrls = []\<rparr>"
proof -
  have h: "\<forall>c\<in>set '' ''. isWhiteSpace c"
    by (simp add: isWhiteSpace_def)
  have e: "\<forall>c\<in>set ''''. isWhiteSpace c"
    by simp
  show ?thesis
    using parseMarkdownImages_blank [OF h] parseMarkdownImages_blank [OF e] by simp
qed

section \<open>Properties of the batch downloader\<close>

text \<open>
  With a positive \<open>concurrency\<close> the launching loop ends, and the start indices it has
  passed to \<open>processBatch\<close> cover every index of the URL list.
\<close>

lemma launchBatches_returns:
  assumes "0 < c"
  shows "\<exists>bs. launchBatches n c i acc = Some (acc @ bs)
           \<and> (\<forall>j. i \<le> j \<and> j < n \<longrightarrow> (\<exists>s\<in>set bs. s \<le> j \<and> j < s + c))"
proof (induction "n - i" arbitrary: i acc rule: less_induct)
  case less
  show ?case
  proof (cases "i < n")
    case False
    then show ?thesis
      by (subst launchBatches.simps) simp
  next
    case True
    then have "n - (i + c) < n - i"
      using assms by arith
    from less [OF this, of "acc @ [i]"] obtain bs where
      b: "launchBatches n c (i + c) (acc @ [i]) = Some ((acc @ [i]) @ bs)"
      and cov: "\<forall>j. i + c \<le> j \<and> j < n \<longrightarrow> (\<exists>s\<in>set bs. s \<le> j \<and> j < s + c)"
      by blast
    have "launchBatches n c i acc = Some (acc @ (i # bs))"
      using True b by (subst launchBatches.simps) simp
    moreover have "\<forall>j. i \<le> j \<and> j < n \<longrightarrow> (\<exists>s\<in>set (i # bs). s \<le> j \<and> j < s + c)"
    proof (intro allI impI)
      fix j assume j: "i \<le> j \<and> j < n"
      show "\<exists>s\<in>set (i # bs). s \<le> j \<and> j < s + c"
      proof (cases "j < i + c")
        case True
        with j show ?thesis by auto
      next
        case False
        with j cov obtain s where "s \<in> set bs" "s \<le> j \<and> j < s + c"
          by (meson not_le_imp_less leI)
        then show ?thesis by auto
      qed
    qed
    ultimately show ?thesis by blast
  qed
qed

lemma fold_update_length:
  "length (fold (\<lambda>i res. res[i := g i]) is res) = length res"
  by (induction "is" arbitrary: res) auto

lemma fold_update_nth:
  "j < length res \<Longrightarrow>
   fold (\<lambda>i res. res[i := g i]) is res ! j = (if j \<in> set is then g j else res ! j)"
proof (induction "is" arbitrary: res)
  case Nil
  then show ?case by simp
next
  case (Cons a "is")
  then show ?case
    by (cases "j = a") (auto simp: fold_update_length)
qed

text \<open>
  When no download of the list stalls, every turn ends and writes the settled entry.
\<close>

lemma processUrl_settled:
  "\<not> stalls P net u \<Longrightarrow> processUrl P net u = Some (settledEntry P net u)"
  by (auto simp: stalls_def processUrl_def settledEntry_def split: Completion.splits)

lemma processUrl_stalls: "stalls P net u \<Longrightarrow> processUrl P net u = None"
  by (simp add: stalls_def processUrl_def)

lemma processBatchLoop_settled:
  assumes "\<forall>i\<in>set is. \<not> stalls P net (urls ! i)"
  shows "processBatchLoop P net urls is res
           = Some (fold (\<lambda>i r. r[i := settledEntry P net (urls ! i)]) is res)"
  using assms by (induction "is" arbitrary: res) (simp_all add: processUrl_settled)

lemma processBatch_settled:
  assumes "\<forall>u\<in>set urls. \<not> stalls P net u"
  shows "processBatch P net urls c s res
           = Some (fold (\<lambda>i r. r[i := settledEntry P net (urls ! i)])
                     [s ..< min (length urls) (s + c)] res)"
  unfolding processBatch_def using assms by (intro processBatchLoop_settled) auto

lemma awaitBatches_settled:
  assumes "\<forall>u\<in>set urls. \<not> stalls P net u"
  shows "awaitBatches P net urls c bs res
           = Some (fold (\<lambda>s. fold (\<lambda>i r. r[i := settledEntry P net (urls ! i)])
                                [s ..< min (length urls) (s + c)]) bs res)"
  by (induction bs arbitrary: res) (simp_all add: processBatch_settled [OF assms])

lemma fold_batches_length:
  "length (fold (\<lambda>s. fold (\<lambda>i r. r[i := g i]) [s ..< min n (s + c)]) bs res) = length res"
  by (induction bs arbitrary: res) (auto simp: fold_update_length)

lemma fold_batches_nth:
  "j < length res \<Longrightarrow>
   fold (\<lambda>s. fold (\<lambda>i r. r[i := g i]) [s ..< min n (s + c)]) bs res ! j =
     (if \<exists>s\<in>set bs. s \<le> j \<and> j < n \<and> j < s + c then g j else res ! j)"
proof (induction bs arbitrary: res)
  case Nil
  then show ?case by simp
next
  case (Cons b bs)
  have "j < length (fold (\<lambda>i r. r[i := g i]) [b ..< min n (b + c)] res)"
    using Cons.prems by (simp add: fold_update_length)
  from Cons.IH [OF this] show ?case
    using Cons.prems by (auto simp: fold_update_nth)
qed

lemma batchDownloadImages_returns:
  assumes "0 < c" and "\<forall>u\<in>set urls. \<not> stalls P net u"
  shows "batchDownloadImages P net urls c = Some (map (settledEntry P net) urls)"
proof -
  let ?g = "\<lambda>i. settledEntry P net (urls ! i)"
  let ?final = "fold (\<lambda>s. fold (\<lambda>i r. r[i := ?g i]) [s ..< min (length urls) (s + c)]) bs
                  (replicate (length urls) None)"
  from launchBatches_returns [OF assms(1), of "length urls" 0 "[]"] obtain bs where
    b: "launchBatches (length urls) c 0 [] = Some bs"
    and cov: "\<forall>j. j < length urls \<longrightarrow> (\<exists>s\<in>set bs. s \<le> j \<and> j < s + c)"
    by auto
  have "fold (\<lambda>s. fold (\<lambda>i r. r[i := ?g i]) [s ..< min (length urls) (s + c)]) bs
          (replicate (length urls) None) = map (settledEntry P net) urls"
  proof (rule nth_equalityI)
    show "length (fold (\<lambda>s. fold (\<lambda>i r. r[i := ?g i]) [s ..< min (length urls) (s + c)]) bs
          (replicate (length urls) None)) = length (map (settledEntry P net) urls)"
      by (simp add: fold_batches_length)
  next
    fix j assume "j < length (fold (\<lambda>s. fold (\<lambda>i r. r[i := ?g i])
          [s ..< min (length urls) (s + c)]) bs (replicate (length urls) None))"
    then have j: "j < length urls"
      by (simp add: fold_batches_length)
    with cov have "\<exists>s\<in>set bs. s \<le> j \<and> j < length urls \<and> j < s + c"
      by blast
    then show "fold (\<lambda>s. fold (\<lambda>i r. r[i := ?g i]) [s ..< min (length urls) (s + c)]) bs
          (replicate (length urls) None) ! j = map (settledEntry P net) urls ! j"
      using j by (simp add: fold_batches_nth)
  qed
  then show ?thesis
    using b by (simp add: batchDownloadImages_def awaitBatches_settled [OF assms(2)])
qed

lemma launchBatches_zero_diverges:
  assumes "launchBatches n c i acc = Some bs"
  shows "c = 0 \<longrightarrow> \<not> i < n"
proof (rule launchBatches.raw_induct [where P = "\<lambda>n c i acc bs. c = 0 \<longrightarrow> \<not> i < n", OF _ assms])
  fix f :: "nat \<Rightarrow> nat \<Rightarrow> nat \<Rightarrow> nat list \<Rightarrow> nat list option" and n c i :: nat and acc r :: "nat list"
  assume IH: "\<And>n c i acc y. f n c i acc = Some y \<Longrightarrow> c = 0 \<longrightarrow> \<not> i < n"
    and eq: "(if i < n then f n c (i + c) (acc @ [i]) else Some acc) = Some r"
  show "c = 0 \<longrightarrow> \<not> i < n"
  proof (intro impI notI)
    assume "c = 0" and "i < n"
    with eq have "f n 0 i (acc @ [i]) = Some r"
      by simp
    from IH [OF this] \<open>i < n\<close> show False
      by simp
  qed
qed

lemma valid_a: "isValidImageUrl exampleParseURL ''http://cdn.img/a.png''" by code_simp
lemma valid_b: "isValidImageUrl exampleParseURL ''http://cdn.img/b.png''" by code_simp
lemma valid_c: "isValidImageUrl exampleParseURL ''http://cdn.img/c.png''" by code_simp

text \<open>
  C6, as amended. For every positive \<open>concurrency\<close>, every URL list, every URL parser
  and every network in which the download of each valid URL of the list settles, the call
  returns an array as long as the URL list whose entry \<open>i\<close> is \<open>null\<close> exactly when
  \<open>urls[i]\<close> is rejected by the validator or its download throws, and the downloaded
  image with its URL when the download returns.
\<close>

theorem batchDownloadImages_aligned:
  assumes "0 < concurrency"
    and "\<forall>u\<in>set urls.
           isValidImageUrl parseURL u \<longrightarrow> downloadImageAsBase64 (net u) \<noteq> NeverSettles"
  shows "\<exists>results. batchDownloadImages parseURL net urls concurrency = Some results
           \<and> length results = length urls
           \<and> (\<forall>i<length urls.
                 ((results ! i = None) =
                    (\<not> isValidImageUrl parseURL (urls ! i)
                     \<or> (\<exists>e. downloadImageAsBase64 (net (urls ! i)) = Throws e)))
                 \<and> (\<forall>imageData.
                       isValidImageUrl parseURL (urls ! i)
                       \<and> downloadImageAsBase64 (net (urls ! i)) = Returns imageData
                       \<longrightarrow> results ! i = Some (urls ! i, imageData)))"
proof -
  have settle: "\<forall>u\<in>set urls. \<not> stalls parseURL net u"
    using assms(2) by (simp add: stalls_def)
  have entry: "((settledEntry parseURL net (urls ! i) = None) =
                    (\<not> isValidImageUrl parseURL (urls ! i)
                     \<or> (\<exists>e. downloadImageAsBase64 (net (urls ! i)) = Throws e)))
                 \<and> (\<forall>imageData.
                       isValidImageUrl parseURL (urls ! i)
                       \<and> downloadImageAsBase64 (net (urls ! i)) = Returns imageData
                       \<longrightarrow> settledEntry parseURL net (urls ! i) = Some (urls ! i, imageData))"
    if "i < length urls" for i
  proof -
    from that assms(2) have "isValidImageUrl parseURL (urls ! i) \<longrightarrow>
        downloadImageAsBase64 (net (urls ! i)) \<noteq> NeverSettles"
      by simp
    then show ?thesis
      by (cases "downloadImageAsBase64 (net (urls ! i))") (auto simp: settledEntry_def)
  qed
  show ?thesis
    using batchDownloadImages_returns [OF assms(1) settle] entry by simp
qed

text \<open>
  The example of the specification: three valid URLs, the fetch of the second fails,
  concurrency 2. The array is \<open>[ok, null, ok]\<close>.
\<close>

theorem batchDownloadImages_aligned_witness:
  "\<exists>results.
      batchDownloadImages exampleParseURL netOnlyBFails
        [''http://cdn.img/a.png'', ''http://cdn.img/b.png'', ''http://cdn.img/c.png''] 2
        = Some results
      \<and> length results = 3
      \<and> results ! 0
          = Some (''http://cdn.img/a.png'', \<lparr>mimeType = ''image/png'', base64Data = ''D1''\<rparr>)
      \<and> results ! 1 = None
      \<and> results ! 2
          = Some (''http://cdn.img/c.png'', \<lparr>mimeType = ''image/png'', base64Data = ''D1''\<rparr>)"
proof -
  let ?urls = "[''http://cdn.img/a.png'', ''http://cdn.img/b.png'', ''http://cdn.img/c.png'']"
  have pos: "(0::nat) < 2" by simp
  have d: "downloadImageAsBase64 (pngResponse ''D1'')
             = Returns \<lparr>mimeType = ''image/png'', base64Data = ''D1''\<rparr>"
    by (simp add: downloadImageAsBase64_def pngResponse_def ok_def truthy_def)
  have f: "downloadImageAsBase64 (FetchRejected False ''Failed to fetch'')
             = Throws (OtherExn ''Failed to fetch'')"
    by (simp add: downloadImageAsBase64_def)
  have settle: "\<forall>u\<in>set ?urls. isValidImageUrl exampleParseURL u \<longrightarrow>
      downloadImageAsBase64 (netOnlyBFails u) \<noteq> NeverSettles"
    using d f by (simp add: netOnlyBFails_def)
  from batchDownloadImages_aligned [OF pos settle]
  obtain results where
    r: "batchDownloadImages exampleParseURL netOnlyBFails ?urls 2 = Some results"
    and l: "length results = 3"
    and n: "\<forall>i<3.
        ((results ! i = None) =
           (\<not> isValidImageUrl exampleParseURL (?urls ! i)
            \<or> (\<exists>e. downloadImageAsBase64 (netOnlyBFails (?urls ! i)) = Throws e)))
        \<and> (\<forall>imageData.
              isValidImageUrl exampleParseURL (?urls ! i)
              \<and> downloadImageAsBase64 (netOnlyBFails (?urls ! i)) = Returns imageData
              \<longrightarrow> results ! i = Some (?urls ! i, imageData))"
    by auto
  have "results ! 0
          = Some (''http://cdn.img/a.png'', \<lparr>mimeType = ''image/png'', base64Data = ''D1''\<rparr>)"
    using n [rule_format, of 0] valid_a d by (simp add: netOnlyBFails_def)
  moreover have "results ! 1 = None"
    using n [rule_format, of 1] valid_b f by (simp add: netOnlyBFails_def)
  moreover have "results ! 2
          = Some (''http://cdn.img/c.png'', \<lparr>mimeType = ''image/png'', base64Data = ''D1''\<rparr>)"
    using n [rule_format, of 2] valid_c d by (simp add: netOnlyBFails_def)
  ultimately show ?thesis
    using r l by simp
qed

text \<open>
  C6, the claim as stated: with \<open>concurrency = 0\<close> and a URL in the list the launching
  loop \<^verbatim>\<open>for (let i = 0; i < urls.length; i += concurrency)\<close> never ends, and the call
  returns nothing.
\<close>

theorem batchDownloadImages_zero_concurrency:
  "batchDownloadImages exampleParseURL netAllOk [''http://cdn.img/a.png''] 0 = None"
proof -
  have "launchBatches 1 0 0 [] = None"
    using launchBatches_zero_diverges [of 1 0 0 "[]"] by (cases "launchBatches 1 0 0 []") auto
  then show ?thesis
    by (simp add: batchDownloadImages_def)
qed

text \<open>
  A body that never arrives: the response of the only URL is there, the timer is cleared,
  and the read of the body never settles. The call does not return.
\<close>

lemma batchDownloadImages_stalled_body:
  "batchDownloadImages exampleParseURL netBodyStalls [''http://cdn.img/a.png''] 3 = None"
  by code_simp

text \<open>
  C5. The batches are not waves: every \<open>processBatch(i)\<close> is started by the launching loop
  before anything is awaited, and each of them downloads its own URLs one after the
  other. So one fetch per batch is in flight at once, that is \<open>ceil(n / concurrency)\<close>
  fetches for \<open>n\<close> valid URLs: three with three URLs and concurrency 1, three with five
  URLs and concurrency 2.
\<close>

theorem fetches_in_flight_exceed_concurrency:
  "fetchesInFlightAfterLaunch exampleParseURL
     [''http://cdn.img/a.png'', ''http://cdn.img/b.png'', ''http://cdn.img/c.png''] 1
     = Some [0, 1, 2]
   \<and> fetchesInFlightAfterLaunch exampleParseURL
     [''http://cdn.img/a.png'', ''http://cdn.img/b.png'', ''http://cdn.img/c.png'',
      ''http://cdn.img/a.png'', ''http://cdn.img/b.png''] 2
     = Some [0, 2, 4]"
  by code_simp

section \<open>Properties of the image fetcher\<close>

text \<open>
  C7, as amended. \<open>downloadImageAsBase64\<close> reports a failure by throwing, not by a
  returned result: it throws the timeout error when the fetch was rejected with the
  abort flag set, the error carrying the status when the response is not 2xx, and any
  other error (of the fetch or of reading the body) as it is. On success it returns the
  body with the declared content type, \<open>image/png\<close> when the header is absent or empty.
\<close>

theorem downloadImageAsBase64_outcomes:
  "(\<forall>e. downloadImageAsBase64 (FetchRejected True e) = Throws TimeoutExn)
   \<and> (\<forall>e. downloadImageAsBase64 (FetchRejected False e) = Throws (OtherExn e))
   \<and> (\<forall>r. \<not> (200 \<le> status r \<and> status r \<le> 299) \<longrightarrow>
          downloadImageAsBase64 (FetchResponse r) = Throws (HttpExn (status r) (statusText r)))
   \<and> (\<forall>r e. 200 \<le> status r \<and> status r \<le> 299 \<and> body r = BodyFailed e \<longrightarrow>
          downloadImageAsBase64 (FetchResponse r) = Throws (OtherExn e))
   \<and> (\<forall>r b. 200 \<le> status r \<and> status r \<le> 299 \<and> body r = BodyRead b \<longrightarrow>
          downloadImageAsBase64 (FetchResponse r) =
            Returns \<lparr>mimeType = (case contentType r of
                                    None \<Rightarrow> ''image/png''
                                  | Some ct \<Rightarrow> if ct = [] then ''image/png'' else ct),
                     base64Data = b\<rparr>)"
  by (auto simp: downloadImageAsBase64_def ok_def truthy_def split: option.splits)

theorem downloadImageAsBase64_outcomes_witness:
  "downloadImageAsBase64
     (FetchResponse \<lparr>status = 404, statusText = ''Not Found'', contentType = None,
                     body = BodyRead []\<rparr>)
     = Throws (HttpExn 404 ''Not Found'')
   \<and> downloadImageAsBase64
     (FetchResponse \<lparr>status = 200, statusText = ''OK'', contentType = None,
                     body = BodyRead ''D1''\<rparr>)
     = Returns \<lparr>mimeType = ''image/png'', base64Data = ''D1''\<rparr>
   \<and> downloadImageAsBase64
     (FetchResponse \<lparr>status = 200, statusText = ''OK'', contentType = Some ''image/gif'',
                     body = BodyFailed ''network error''\<rparr>)
     = Throws (OtherExn ''network error'')"
proof -
  note t = downloadImageAsBase64_outcomes
  have a: "downloadImageAsBase64
     (FetchResponse \<lparr>status = 404, statusText = ''Not Found'', contentType = None,
                     body = BodyRead []\<rparr>)
     = Throws (HttpExn 404 ''Not Found'')"
    using t [THEN conjunct2, THEN conjunct2, THEN conjunct1, rule_format,
        of "\<lparr>status = 404, statusText = ''Not Found'', contentType = None, body = BodyRead []\<rparr>"]
    by simp
  have b: "downloadImageAsBase64
     (FetchResponse \<lparr>status = 200, statusText = ''OK'', contentType = None,
                     body = BodyRead ''D1''\<rparr>)
     = Returns \<lparr>mimeType = ''image/png'', base64Data = ''D1''\<rparr>"
    using t [THEN conjunct2, THEN conjunct2, THEN conjunct2, THEN conjunct2, rule_format,
        of "\<lparr>status = 200, statusText = ''OK'', contentType = None, body = BodyRead ''D1''\<rparr>" "''D1''"]
    by simp
  have c: "downloadImageAsBase64
     (FetchResponse \<lparr>status = 200, statusText = ''OK'', contentType = Some ''image/gif'',
                     body = BodyFailed ''network error''\<rparr>)
     = Throws (OtherExn ''network error'')"
    using t [THEN conjunct2, THEN conjunct2, THEN conjunct2, THEN conjunct1, rule_format,
        of "\<lparr>status = 200, statusText = ''OK'', contentType = Some ''image/gif'',
              body = BodyFailed ''network error''\<rparr>" "''network error''"]
    by simp
  from a b c show ?thesis by blast
qed

text \<open>
  C7, the claim as stated: on a timeout the function does not return a result that
  describes the failure, it throws.
\<close>

theorem downloadImageAsBase64_throws:
  "downloadImageAsBase64 (FetchRejected True ''The user aborted a request.'') = Throws TimeoutExn"
  by (simp add: downloadImageAsBase64_def)

section \<open>Properties of the validator\<close>

lemma includesStr_iff: "includesStr s sub \<longleftrightarrow> (\<exists>pre post. s = pre @ sub @ post)"
proof (induction s)
  case Nil
  then show ?case by auto
next
  case (Cons c cs)
  show ?case
  proof
    assume "includesStr (c # cs) sub"
    then consider "prefix sub (c # cs)" | "includesStr cs sub" by auto
    then show "\<exists>pre post. c # cs = pre @ sub @ post"
    proof cases
      case 1
      then obtain post where "c # cs = sub @ post" by (auto simp: prefix_def)
      then have "c # cs = [] @ sub @ post" by simp
      then show ?thesis by blast
    next
      case 2
      with Cons.IH obtain pre post where "cs = pre @ sub @ post" by blast
      then have "c # cs = (c # pre) @ sub @ post" by simp
      then show ?thesis by blast
    qed
  next
    assume "\<exists>pre post. c # cs = pre @ sub @ post"
    then obtain pre post where e: "c # cs = pre @ sub @ post" by blast
    show "includesStr (c # cs) sub"
    proof (cases pre)
      case Nil
      with e have "prefix sub (c # cs)" by (simp add: prefix_def)
      then show ?thesis by simp
    next
      case (Cons a pre')
      with e have "cs = pre' @ sub @ post" by simp
      with Cons.IH have "includesStr cs sub" by blast
      then show ?thesis by simp
    qed
  qed
qed

lemma extension_at_iff:
  "toLowerCase (take (length e) cs) = e \<and> extensionTail (drop (length e) cs) \<longleftrightarrow>
   (\<exists>x tail. cs = x @ tail \<and> toLowerCase x = e
      \<and> (tail = [] \<or> (\<exists>q. tail = ''?'' @ q \<and> \<not> list_ex isLineTerminator q)))"
proof
  assume a: "toLowerCase (take (length e) cs) = e \<and> extensionTail (drop (length e) cs)"
  have "cs = take (length e) cs @ drop (length e) cs" by simp
  moreover have "drop (length e) cs = [] \<or>
      (\<exists>q. drop (length e) cs = ''?'' @ q \<and> \<not> list_ex isLineTerminator q)"
    using a by (auto simp: extensionTail_def split: list.splits)
  ultimately show "\<exists>x tail. cs = x @ tail \<and> toLowerCase x = e
      \<and> (tail = [] \<or> (\<exists>q. tail = ''?'' @ q \<and> \<not> list_ex isLineTerminator q))"
    using a by blast
next
  assume "\<exists>x tail. cs = x @ tail \<and> toLowerCase x = e
      \<and> (tail = [] \<or> (\<exists>q. tail = ''?'' @ q \<and> \<not> list_ex isLineTerminator q))"
  then obtain x tail where cs: "cs = x @ tail" and x: "toLowerCase x = e"
    and t: "tail = [] \<or> (\<exists>q. tail = ''?'' @ q \<and> \<not> list_ex isLineTerminator q)"
    by blast
  from x have l: "length x = length e" by (auto simp: toLowerCase_def)
  then have "take (length e) cs = x" "drop (length e) cs = tail"
    using cs by auto
  then show "toLowerCase (take (length e) cs) = e \<and> extensionTail (drop (length e) cs)"
    using x t by (auto simp: extensionTail_def)
qed

lemma validImageExtensionsTest_iff:
  "validImageExtensionsTest u \<longleftrightarrow>
   (\<exists>pre x tail. u = pre @ ''.'' @ x @ tail \<and> toLowerCase x \<in> set validImageExtensions
      \<and> (tail = [] \<or> (\<exists>q. tail = ''?'' @ q \<and> \<not> list_ex isLineTerminator q)))"
  (is "_ \<longleftrightarrow> ?R u")
proof (induction u)
  case Nil
  then show ?case by simp
next
  case (Cons c cs)
  let ?here = "c = CHR ''.'' \<and> (\<exists>e\<in>set validImageExtensions.
      \<exists>x tail. cs = x @ tail \<and> toLowerCase x = e
      \<and> (tail = [] \<or> (\<exists>q. tail = ''?'' @ q \<and> \<not> list_ex isLineTerminator q)))"
  have step: "validImageExtensionsTest (c # cs) \<longleftrightarrow> ?here \<or> ?R cs"
    using Cons.IH by (simp add: list_ex_iff extension_at_iff)
  show ?case
  proof
    assume "validImageExtensionsTest (c # cs)"
    with step consider ?here | "?R cs" by blast
    then show "?R (c # cs)"
    proof cases
      case 1
      then obtain x tail where "c # cs = [] @ ''.'' @ x @ tail"
        "toLowerCase x \<in> set validImageExtensions"
        "tail = [] \<or> (\<exists>q. tail = ''?'' @ q \<and> \<not> list_ex isLineTerminator q)"
        by auto
      then show ?thesis by blast
    next
      case 2
      then obtain pre x tail where "c # cs = (c # pre) @ ''.'' @ x @ tail"
        "toLowerCase x \<in> set validImageExtensions"
        "tail = [] \<or> (\<exists>q. tail = ''?'' @ q \<and> \<not> list_ex isLineTerminator q)"
        by auto
      then show ?thesis by blast
    qed
  next
    assume "?R (c # cs)"
    then obtain pre x tail where e: "c # cs = pre @ ''.'' @ x @ tail"
      and x: "toLowerCase x \<in> set validImageExtensions"
      and t: "tail = [] \<or> (\<exists>q. tail = ''?'' @ q \<and> \<not> list_ex isLineTerminator q)"
      by blast
    show "validImageExtensionsTest (c # cs)"
    proof (cases pre)
      case Nil
      with e x t have ?here by auto
      with step show ?thesis by blast
    next
      case (Cons a pre')
      with e have "cs = pre' @ ''.'' @ x @ tail" by simp
      with x t have "?R cs" by blast
      with step show ?thesis by blast
    qed
  qed
qed

text \<open>
  C8, as amended. \<open>isValidImageUrl\<close> rejects a string that does not parse as a URL.
  Otherwise it accepts when the whole URL string ends with a dot and a recognised
  extension (in either case), optionally followed by a question mark and anything
  without a line terminator; or when the whole URL string, in lower case, contains
  \<open>image\<close> anywhere (host and fragment included); or when the host name contains one of
  the four known domains; and rejects otherwise.
\<close>

theorem isValidImageUrl_policy:
  "isValidImageUrl parseURL u \<longleftrightarrow>
     (\<exists>urlObj. parseURL u = Some urlObj \<and>
        ((\<exists>pre x tail. u = pre @ ''.'' @ x @ tail \<and> toLowerCase x \<in> set validImageExtensions
            \<and> (tail = [] \<or> (\<exists>q. tail = ''?'' @ q \<and> \<not> list_ex isLineTerminator q)))
         \<or> (\<exists>pre post. toLowerCase u = pre @ ''image'' @ post)
         \<or> (\<exists>domain\<in>set knownImageDomains. \<exists>pre post. hostname urlObj = pre @ domain @ post)))"
proof (cases "parseURL u")
  case None
  then show ?thesis
    by (simp add: isValidImageUrl_def)
next
  case (Some urlObj)
  have "isValidImageUrl parseURL u \<longleftrightarrow>
          validImageExtensionsTest u \<or> includesStr (toLowerCase u) ''image''
          \<or> (\<exists>domain\<in>set knownImageDomains. includesStr (hostname urlObj) domain)"
    using Some by (simp add: isValidImageUrl_def list_ex_iff)
  also have "\<dots> \<longleftrightarrow>
          (\<exists>pre x tail. u = pre @ ''.'' @ x @ tail \<and> toLowerCase x \<in> set validImageExtensions
              \<and> (tail = [] \<or> (\<exists>q. tail = ''?'' @ q \<and> \<not> list_ex isLineTerminator q)))
          \<or> (\<exists>pre post. toLowerCase u = pre @ ''image'' @ post)
          \<or> (\<exists>domain\<in>set knownImageDomains. \<exists>pre post. hostname urlObj = pre @ domain @ post)"
    by (simp only: validImageExtensionsTest_iff includesStr_iff)
  finally show ?thesis
    using Some by simp
qed

theorem isValidImageUrl_policy_witness:
  "isValidImageUrl exampleParseURL ''http://image.example.com/x''"
proof -
  have p: "exampleParseURL ''http://image.example.com/x''
             = Some \<lparr>hostname = ''image.example.com'', pathname = ''/x'', search = []\<rparr>"
    by (simp add: exampleParseURL_def)
  have "toLowerCase ''http://image.example.com/x'' = ''http://'' @ ''image'' @ ''.example.com/x''"
    by (simp add: toLowerCase_def toLowerChar_def)
  then have "\<exists>pre post. toLowerCase ''http://image.example.com/x'' = pre @ ''image'' @ post"
    by blast
  with p show ?thesis
    by (subst isValidImageUrl_policy) blast
qed

text \<open>
  C8, the claim as stated: for a URL with the keyword in its host only, the code accepts
  and the policy of the specification rejects.
\<close>

theorem isValidImageUrl_keyword_in_host:
  "isValidImageUrl exampleParseURL ''http://image.example.com/x''
   \<and> \<not> spec_isFetchable exampleParseURL ''http://image.example.com/x''"
  by code_simp

section \<open>Properties of the part merger\<close>

lemma signatureField_carried:
  "signatureField (sdkThoughtSignature part) = carriedSignature part"
  by (simp add: signatureField_def carriedSignature_def truthy_def split: option.splits)

lemma mergePart_refines: "mergePart parts part =
     (case toFragment part of None \<Rightarrow> parts | Some fragment \<Rightarrow> spec_merge parts fragment)"
proof (cases "sdkText part")
  case None
  then show ?thesis
    by (cases "sdkInlineData part")
       (auto simp: mergePart_def toFragment_def imagePart_def orDefault_def truthy_def
          signatureField_carried toBool_def split: option.splits)
next
  case (Some t)
  have m: "mergePart parts part
             = appendText parts t (sdkThought part = Some True) (sdkThoughtSignature part)"
    using Some by (simp add: mergePart_def toBool_def)
  have f: "toFragment part
             = Some (TextFragment t (sdkThought part = Some True) (carriedSignature part))"
    using Some by (simp add: toFragment_def)
  show ?thesis
  proof (cases "parts = []")
    case True
    then show ?thesis
      unfolding m f by (simp add: appendText_def textPart_def signatureField_carried)
  next
    case False
    show ?thesis
    proof (cases "text (last parts)")
      case None
      then show ?thesis
        unfolding m f using False
        by (simp add: appendText_def textPart_def signatureField_carried isTextPart_def)
    next
      case (Some old)
      then show ?thesis
        unfolding m f using False
        by (cases "carriedSignature part")
           (simp_all add: appendText_def textPart_def signatureField_carried isTextPart_def
              isThoughtPart_def toBool_def)
    qed
  qed
qed

lemma mergePart_coalesces: "parts \<noteq> [] \<Longrightarrow> text (last parts) = Some old \<Longrightarrow>
        (thought (last parts) = Some True) = (sdkThought part = Some True) \<Longrightarrow>
        sdkText part = Some t \<Longrightarrow>
        mergePart parts part =
          butlast parts @
            [(last parts)\<lparr>text := Some (old @ t),
               thoughtSignature :=
                 (if sdkThoughtSignature part \<noteq> None \<and> sdkThoughtSignature part \<noteq> Some []
                  then sdkThoughtSignature part else thoughtSignature (last parts))\<rparr>]"
  by (cases "sdkThoughtSignature part")
     (simp_all add: mergePart_def appendText_def toBool_def signatureField_def truthy_def)

lemma mergePart_two_thoughts: "mergePart
       (mergePart []
          \<lparr>sdkText = Some t1, sdkInlineData = None, sdkThought = Some True,
           sdkThoughtSignature = s1\<rparr>)
       \<lparr>sdkText = Some t2, sdkInlineData = None, sdkThought = Some True,
        sdkThoughtSignature = s2\<rparr>
       = [\<lparr>text = Some (t1 @ t2), inlineData = None, thought = Some True,
           thoughtSignature =
             (if s2 \<noteq> None \<and> s2 \<noteq> Some [] then s2
              else if s1 \<noteq> None \<and> s1 \<noteq> Some [] then s1 else None)\<rparr>]"
proof -
  have first: "mergePart []
          \<lparr>sdkText = Some t1, sdkInlineData = None, sdkThought = Some True,
           sdkThoughtSignature = s1\<rparr>
        = [\<lparr>text = Some t1, inlineData = None, thought = Some True,
            thoughtSignature = (if s1 \<noteq> None \<and> s1 \<noteq> Some [] then s1 else None)\<rparr>]"
    by (cases s1)
       (simp_all add: mergePart_def appendText_def toBool_def textPart_def signatureField_def
          truthy_def)
  show ?thesis
    unfolding first by (subst mergePart_coalesces [where old = t1 and t = t2]) auto
qed

lemma mergePart_binary_pushes: "sdkText part = None \<Longrightarrow> sdkInlineData part \<noteq> None \<Longrightarrow>
        (\<exists>p. mergePart parts part = parts @ [p] \<and> text p = None \<and> inlineData p \<noteq> None)"
  by (auto simp: mergePart_def imagePart_def)

text \<open>
  C4. The merger of the server follows the rules of the specification: on every part
  list and every part of a chunk it does what \<open>spec_merge\<close> does on the fragment the part
  maps to (nothing for a part that is no fragment). In particular two consecutive text
  fragments with the thought flag give one part with both texts, whose signature is the
  one of the second fragment when that is a non-empty string, else the one of the first
  when that is a non-empty string, else none; a text fragment that is merged into the
  last part overwrites the signature of that part exactly when its own signature is a
  non-empty string; and a binary fragment pushes exactly one new binary part behind the
  unchanged list.
\<close>

theorem mergePart_follows_spec:
  "mergePart parts part =
     (case toFragment part of None \<Rightarrow> parts | Some fragment \<Rightarrow> spec_merge parts fragment)
   \<and> mergePart
       (mergePart []
          \<lparr>sdkText = Some t1, sdkInlineData = None, sdkThought = Some True,
           sdkThoughtSignature = s1\<rparr>)
       \<lparr>sdkText = Some t2, sdkInlineData = None, sdkThought = Some True,
        sdkThoughtSignature = s2\<rparr>
       = [\<lparr>text = Some (t1 @ t2), inlineData = None, thought = Some True,
           thoughtSignature =
             (if s2 \<noteq> None \<and> s2 \<noteq> Some [] then s2
              else if s1 \<noteq> None \<and> s1 \<noteq> Some [] then s1 else None)\<rparr>]
   \<and> (parts \<noteq> [] \<longrightarrow> text (last parts) = Some old \<longrightarrow>
        (thought (last parts) = Some True) = (sdkThought part = Some True) \<longrightarrow>
        sdkText part = Some t \<longrightarrow>
        mergePart parts part =
          butlast parts @
            [(last parts)\<lparr>text := Some (old @ t),
               thoughtSignature :=
                 (if sdkThoughtSignature part \<noteq> None \<and> sdkThoughtSignature part \<noteq> Some []
                  then sdkThoughtSignature part else thoughtSignature (last parts))\<rparr>])
   \<and> (sdkText part = None \<longrightarrow> sdkInlineData part \<noteq> None \<longrightarrow>
        (\<exists>p. mergePart parts part = parts @ [p] \<and> text p = None \<and> inlineData p \<noteq> None))"
  using mergePart_refines [of parts part] mergePart_two_thoughts [of t1 s1 t2 s2]
    mergePart_coalesces [of parts old part t] mergePart_binary_pushes [of part parts]
  by blast

text \<open>
  Two thought fragments of which only the first has a signature, the same with a
  signature on the second, and a binary fragment behind a binary part.
\<close>

theorem mergePart_follows_spec_witness:
  "mergePart
     (mergePart []
        \<lparr>sdkText = Some ''a'', sdkInlineData = None, sdkThought = Some True,
         sdkThoughtSignature = Some ''S1''\<rparr>)
     \<lparr>sdkText = Some ''b'', sdkInlineData = None, sdkThought = Some True,
      sdkThoughtSignature = None\<rparr>
     = [\<lparr>text = Some ''ab'', inlineData = None, thought = Some True,
         thoughtSignature = Some ''S1''\<rparr>]
   \<and> mergePart
     (mergePart []
        \<lparr>sdkText = Some ''a'', sdkInlineData = None, sdkThought = Some True,
         sdkThoughtSignature = Some ''S1''\<rparr>)
     \<lparr>sdkText = Some ''b'', sdkInlineData = None, sdkThought = Some True,
      sdkThoughtSignature = Some ''S2''\<rparr>
     = [\<lparr>text = Some ''ab'', inlineData = None, thought = Some True,
         thoughtSignature = Some ''S2''\<rparr>]
   \<and> (\<exists>p. mergePart [imagePart ''image/png'' ''D0'' False None]
              (imageFragment ''image/png'' ''D1'')
            = [imagePart ''image/png'' ''D0'' False None] @ [p]
          \<and> text p = None \<and> inlineData p \<noteq> None)"
proof -
  have a: "mergePart
     (mergePart []
        \<lparr>sdkText = Some ''a'', sdkInlineData = None, sdkThought = Some True,
         sdkThoughtSignature = Some ''S1''\<rparr>)
     \<lparr>sdkText = Some ''b'', sdkInlineData = None, sdkThought = Some True,
      sdkThoughtSignature = None\<rparr>
     = [\<lparr>text = Some ''ab'', inlineData = None, thought = Some True,
         thoughtSignature = Some ''S1''\<rparr>]"
    using mergePart_follows_spec [of _ _ "''a''" "Some ''S1''" "''b''" None,
        THEN conjunct2, THEN conjunct1]
    by simp
  have b: "mergePart
     (mergePart []
        \<lparr>sdkText = Some ''a'', sdkInlineData = None, sdkThought = Some True,
         sdkThoughtSignature = Some ''S1''\<rparr>)
     \<lparr>sdkText = Some ''b'', sdkInlineData = None, sdkThought = Some True,
      sdkThoughtSignature = Some ''S2''\<rparr>
     = [\<lparr>text = Some ''ab'', inlineData = None, thought = Some True,
         thoughtSignature = Some ''S2''\<rparr>]"
    using mergePart_follows_spec [of _ _ "''a''" "Some ''S1''" "''b''" "Some ''S2''",
        THEN conjunct2, THEN conjunct1]
    by simp
  have c: "\<exists>p. mergePart [imagePart ''image/png'' ''D0'' False None]
              (imageFragment ''image/png'' ''D1'')
            = [imagePart ''image/png'' ''D0'' False None] @ [p]
          \<and> text p = None \<and> inlineData p \<noteq> None"
    using mergePart_follows_spec [of "[imagePart ''image/png'' ''D0'' False None]"
        "imageFragment ''image/png'' ''D1''", THEN conjunct2, THEN conjunct2, THEN conjunct2]
    by (simp add: imageFragment_def)
  from a b c show ?thesis by blast
qed

section \<open>The last part with a text\<close>

lemma lastTextIndex_snoc:
  "lastTextIndex (ps @ [q]) = (if text q \<noteq> None then Some (length ps) else lastTextIndex ps)"
proof -
  have "find (\<lambda>i. text ((ps @ [q]) ! i) \<noteq> None) (rev [0..<length ps])
          = find (\<lambda>i. text (ps ! i) \<noteq> None) (rev [0..<length ps])"
    by (rule find_cong) (auto simp: nth_append)
  then show ?thesis
    by (simp add: lastTextIndex_def)
qed

lemma lastTextIndex_none:
  "list_all (\<lambda>q. text q = None) ps \<Longrightarrow> lastTextIndex ps = None"
proof (induction ps rule: rev_induct)
  case Nil
  then show ?case by (simp add: lastTextIndex_def)
next
  case (snoc q ps)
  then show ?case by (simp add: lastTextIndex_snoc)
qed

lemma lastTextIndex_last:
  "text p \<noteq> None \<Longrightarrow> list_all (\<lambda>q. text q = None) post \<Longrightarrow>
   lastTextIndex (pre @ p # post) = Some (length pre)"
proof (induction post rule: rev_induct)
  case Nil
  then show ?case
    using lastTextIndex_snoc [of pre p] by simp
next
  case (snoc q post)
  then show ?case
    using lastTextIndex_snoc [of "pre @ p # post" q] by simp
qed

lemma removeLastText_none:
  "list_all (\<lambda>q. text q = None) ps \<Longrightarrow> removeLastText ps = ps"
  by (simp add: removeLastText_def lastTextIndex_none)

lemma removeLastText_last:
  "text p \<noteq> None \<Longrightarrow> list_all (\<lambda>q. text q = None) post \<Longrightarrow>
   removeLastText (pre @ p # post) = pre @ post"
  by (simp add: removeLastText_def lastTextIndex_last)

section \<open>Properties of the resolution pass\<close>















section \<open>What the parser finds is in the text\<close>






section \<open>Failed references\<close>















text \<open>With an empty alt text the markup that is put back reads \<open>![image](url)\<close>.\<close>

lemma empty_alt_is_replaced:
  "processTextWithCdnImages exampleParseURL netAllFail ''a![](http://cdn.img/a.png)'' False None
     = Some [textPart ''a ![image](http://cdn.img/a.png)'' False None]"
  by code_simp

section \<open>Frame of a step of the streaming assembler\<close>

lemma prefix_butlast_appendText:
  "prefix (butlast parts) (appendText parts t isThought sg)
   \<and> length parts \<le> length (appendText parts t isThought sg)"
proof (cases "parts = []")
  case True
  then show ?thesis by (simp add: appendText_def)
next
  case False
  then have "prefix (butlast parts) parts"
    by (metis append_butlast_last_id prefixI)
  then have "prefix (butlast parts) (parts @ [textPart t isThought sg])"
    using prefix_order.trans by fastforce
  with False show ?thesis
    by (auto simp: appendText_def split: option.splits)
qed

text \<open>
  A step that fires no resolution pass leaves every part but the tail unchanged and in
  place. A resolution pass removes the last part that has a text, wherever it stands,
  and pushes the processed parts.
\<close>

lemma processPart_frame:
  assumes "processPart parseURL net enable s part = Some s'"
  shows "if enable \<and> (case sdkText part of
                         Some t \<Rightarrow> containsCdnImages parseURL (pendingTextBuffer s @ t)
                       | None \<Rightarrow> False)
         then \<exists>processed.
                (\<forall>pre p post.
                    currentParts s = pre @ p # post \<and> text p \<noteq> None
                    \<and> list_all (\<lambda>q. text q = None) post
                    \<longrightarrow> currentParts s' = pre @ post @ processed)
                \<and> (list_all (\<lambda>q. text q = None) (currentParts s)
                    \<longrightarrow> currentParts s' = currentParts s @ processed)
         else prefix (butlast (currentParts s)) (currentParts s')
              \<and> length (currentParts s) \<le> length (currentParts s')"
proof (cases "sdkText part")
  case (Some t)
  show ?thesis
  proof (cases "enable \<and> containsCdnImages parseURL (pendingTextBuffer s @ t)")
    case True
    then obtain processed where "currentParts s' = removeLastText (currentParts s) @ processed"
      using assms Some
      by (auto simp: processPart_def Let_def split: option.splits)
    then have "(\<forall>pre p post.
                    currentParts s = pre @ p # post \<and> text p \<noteq> None
                    \<and> list_all (\<lambda>q. text q = None) post
                    \<longrightarrow> currentParts s' = pre @ post @ processed)
                \<and> (list_all (\<lambda>q. text q = None) (currentParts s)
                    \<longrightarrow> currentParts s' = currentParts s @ processed)"
      by (auto simp: removeLastText_none removeLastText_last)
    then show ?thesis
      using True Some by auto
  next
    case False
    then have "currentParts s'
        = appendText (currentParts s) t (toBool (sdkThought part)) (sdkThoughtSignature part)"
      using assms Some by (auto simp: processPart_def Let_def)
    then show ?thesis
      using False Some prefix_butlast_appendText by auto
  qed
next
  case None
  have b: "prefix (butlast (currentParts s)) (currentParts s)"
    by (cases "currentParts s = []") (simp, metis append_butlast_last_id prefixI)
  have "\<exists>pushed. currentParts s' = currentParts s @ pushed"
    using assms None by (auto simp: processPart_def Let_def split: option.splits if_splits)
  then obtain pushed where "currentParts s' = currentParts s @ pushed"
    by blast
  then have "prefix (butlast (currentParts s)) (currentParts s')
      \<and> length (currentParts s) \<le> length (currentParts s')"
    using b prefix_order.trans by fastforce
  then show ?thesis
    using None by simp
qed

text \<open>
  C9. The splice of a resolution pass searches backwards for the last part with a text
  and removes it, whether or not it holds the text of the pending buffer. In this run
  the first pass leaves the parts \<open>A \<close> and the image, and clears the buffer; the pass of
  the second chunk then removes the part \<open>A \<close>, which is not the tail of the snapshot
  handed out before and whose text is not in the buffer: the text is lost.
\<close>

theorem splice_removes_earlier_text:
  "streamGeminiResponse exampleParseURL netAllOk True
     [Some [textFragment ''A ![x](http://cdn.img/a.png)''],
      Some [textFragment ''![y](http://cdn.img/b.png)'']]
   = Some ([[textPart ''A '' False None, imagePart ''image/png'' ''D1'' False None],
            [imagePart ''image/png'' ''D1'' False None,
             imagePart ''image/png'' ''D1'' False None]],
           [imagePart ''image/png'' ''D1'' False None,
            imagePart ''image/png'' ''D1'' False None])
   \<and> \<not> prefix
         (butlast [textPart ''A '' False None, imagePart ''image/png'' ''D1'' False None])
         [imagePart ''image/png'' ''D1'' False None, imagePart ''image/png'' ''D1'' False None]"
  by code_simp

text \<open>
  The same splice behind the flush of the pending buffer before a binary fragment: the
  part it removes there is the second copy of the text.
\<close>

lemma splice_removes_duplicate:
  "map_option fst
     (streamGeminiResponse exampleParseURL netAllOk True
        [Some [textFragment ''Hi''], Some [imageFragment ''image/png'' ''D0''],
         Some [textFragment ''![x](http://cdn.img/a.png)'']])
   = Some [[textPart ''Hi'' False None],
           [textPart ''Hi'' False None, textPart ''Hi'' False None,
            imagePart ''image/png'' ''D0'' False None],
           [textPart ''Hi'' False None, imagePart ''image/png'' ''D0'' False None,
            imagePart ''image/png'' ''D1'' False None]]
   \<and> \<not> prefix
         (butlast [textPart ''Hi'' False None, textPart ''Hi'' False None,
                   imagePart ''image/png'' ''D0'' False None])
         [textPart ''Hi'' False None, imagePart ''image/png'' ''D0'' False None,
          imagePart ''image/png'' ''D1'' False None]"
  by code_simp

section \<open>The pending text buffer\<close>

text \<open>
  C1. A text fragment is appended to the part list and to the pending buffer, and the
  buffer is not cleared. So the flush of the buffer before a binary fragment pushes the
  text a second time, and so does the flush at the end of the stream (after the last
  \<open>yield\<close>, into the array the last snapshot refers to): the text of the final part list
  is \<open>HelloHello\<close> for the one text fragment \<open>Hello\<close>.
\<close>

theorem pending_buffer_duplicates_text:
  "streamGeminiResponse exampleParseURL netAllOk False
     [Some [textFragment ''Hello'', imageFragment ''image/png'' ''D0'']]
   = Some ([[textPart ''Hello'' False None, textPart ''Hello'' False None,
             imagePart ''image/png'' ''D0'' False None]],
           [textPart ''Hello'' False None, textPart ''Hello'' False None,
            imagePart ''image/png'' ''D0'' False None])
   \<and> textContent [textPart ''Hello'' False None, textPart ''Hello'' False None,
                   imagePart ''image/png'' ''D0'' False None] = ''HelloHello''
   \<and> fragmentText [Some [textFragment ''Hello'', imageFragment ''image/png'' ''D0'']] = ''Hello''
   \<and> streamGeminiResponse exampleParseURL netAllOk False [Some [textFragment ''Hello'']]
   = Some ([[textPart ''Hello'' False None]],
           [textPart ''Hello'' False None, textPart ''Hello'' False None])"
  by code_simp

end
